theory Spec2Isabelle
  imports Main "HOL-Library.Sublist" "HOL-Library.Char_ord" "HOL-Library.List_Lexorder"
begin

section \<open>Cross-reference analysis tool: the model\<close>

text \<open>
  A shallow embedding of \<^verbatim>\<open>agentaskit-production/tools/analysis/cross_reference.py\<close>.
  The class \<^verbatim>\<open>CrossReferenceAnalyzer\<close> keeps its results in instance fields that its
  methods mutate; here the instance is a record and each method takes it and returns it
  updated. Everything the tool reads from outside (the file system, the SHA-256 function
  of \<^verbatim>\<open>hashlib\<close>, the clock) is an explicit argument. Exceptions are values of type
  \<open>error\<close>. Console output is left out; the creation of the output directory and the
  writing of \<^verbatim>\<open>report.json\<close> and \<^verbatim>\<open>report.md\<close> are taken to succeed, and the dictionary
  that \<^verbatim>\<open>json.dump\<close> serialises is the record \<open>report\<close>.
\<close>

subsection \<open>Python dictionaries and strings\<close>

text \<open>
  A \<^verbatim>\<open>dict\<close> keeps its keys in insertion order, and assigning to a key that is present
  replaces the value in place: an association list updated by \<open>dict_set\<close>.
\<close>

fun dict_set :: "('k \<times> 'v) list \<Rightarrow> 'k \<Rightarrow> 'v \<Rightarrow> ('k \<times> 'v) list" where
  "dict_set [] k v = [(k, v)]"
| "dict_set ((k', v') # d) k v =
     (if k' = k then (k, v) # d else (k', v') # dict_set d k v)"

text \<open>\<^verbatim>\<open>d[k].append(x)\<close> on a \<^verbatim>\<open>defaultdict(list)\<close>.\<close>

fun dict_append :: "('k \<times> 'v list) list \<Rightarrow> 'k \<Rightarrow> 'v \<Rightarrow> ('k \<times> 'v list) list" where
  "dict_append [] k x = [(k, [x])]"
| "dict_append ((k', xs) # d) k x =
     (if k' = k then (k', xs @ [x]) # d else (k', xs) # dict_append d k x)"

text \<open>
  \<^verbatim>\<open>d[k]\<close> read on a \<^verbatim>\<open>defaultdict\<close> of dicts or of lists: a missing key reads as the
  empty dict or list.
\<close>

definition dict_get :: "('k \<times> 'v list) list \<Rightarrow> 'k \<Rightarrow> 'v list" where
  "dict_get d k = (case map_of d k of None \<Rightarrow> [] | Some v \<Rightarrow> v)"

text \<open>\<^verbatim>\<open>pat in s\<close> on strings: \<open>pat\<close> occurs in \<open>s\<close> as a contiguous substring.\<close>

fun str_contains :: "string \<Rightarrow> string \<Rightarrow> bool" where
  "str_contains pat [] = (pat = [])"
| "str_contains pat (c # s) = (prefix pat (c # s) \<or> str_contains pat s)"

subsection \<open>Paths\<close>

text \<open>
  A \<^verbatim>\<open>pathlib.Path\<close> is identified with its string \<^verbatim>\<open>str(p)\<close>, which \<^verbatim>\<open>pathlib\<close> keeps
  normalised (no trailing or doubled separator; the empty path is \<^verbatim>\<open>"."\<close>).
\<close>

type_synonym path = string

text \<open>\<^verbatim>\<open>p / s\<close> for a relative \<open>s\<close>.\<close>

definition joinpath :: "path \<Rightarrow> string \<Rightarrow> path" where
  "joinpath p s =
     (if p = ''.'' then s else if p = ''/'' then ''/'' @ s else p @ ''/'' @ s)"

text \<open>\<^verbatim>\<open>p.name\<close>: the final component.\<close>

definition py_name :: "path \<Rightarrow> string" where
  "py_name p = (if p = ''.'' then [] else rev (takeWhile (\<lambda>c. c \<noteq> CHR ''/'') (rev p)))"

text \<open>
  \<^verbatim>\<open>p.suffix\<close>, from the name \<open>nm\<close> of \<open>p\<close>: with \<^verbatim>\<open>i = nm.rfind('.')\<close>, the result is
  \<^verbatim>\<open>nm[i:]\<close> when \<^verbatim>\<open>0 < i < len(nm) - 1\<close> and \<^verbatim>\<open>''\<close> otherwise (CPython up to 3.13).
  Here \<open>ext\<close> is the text after the last dot, so \<open>i = length nm - length ext - 1\<close>.
\<close>

definition py_suffix :: "string \<Rightarrow> string" where
  "py_suffix nm =
     (let ext = rev (takeWhile (\<lambda>c. c \<noteq> CHR ''.'') (rev nm))
      in if CHR ''.'' \<in> set nm \<and> ext \<noteq> [] \<and> length ext + 1 < length nm
         then CHR ''.'' # ext else [])"

text \<open>
  The exceptions that escape; \<open>OSError\<close> stands for the class and its subclasses other than
  \<^verbatim>\<open>NotADirectoryError\<close> (a \<^verbatim>\<open>PermissionError\<close> among them).
\<close>

datatype error = ValueError | OSError | NotADirectoryError

text \<open>\<^verbatim>\<open>p.relative_to(b)\<close>: raises \<^verbatim>\<open>ValueError\<close> unless \<open>p\<close> lies under \<open>b\<close>.\<close>

definition relative_to :: "path \<Rightarrow> path \<Rightarrow> error + string" where
  "relative_to p b =
     (if p = b then Inr ''.''
      else if b = ''.'' then (if prefix ''/'' p then Inl ValueError else Inr p)
      else if b = ''/'' then (if prefix ''/'' p then Inr (drop 1 p) else Inl ValueError)
      else if prefix (b @ ''/'') p then Inr (drop (length b + 1) p)
      else Inl ValueError)"

subsection \<open>The file system\<close>

text \<open>
  What the tool asks of the file system. \<open>fs_is_file p\<close> is the answer of \<^verbatim>\<open>p.is_file()\<close>
  (\<open>None\<close>: the call raises, as it does when the status of \<open>p\<close> may not be read: \<^verbatim>\<open>pathlib\<close>
  turns only a missing path into \<^verbatim>\<open>False\<close> and lets a \<^verbatim>\<open>PermissionError\<close> through).
  \<open>fs_rglob d\<close> lists every path below \<open>d\<close>,
  relative to \<open>d\<close>, in the order \<^verbatim>\<open>d.rglob("*")\<close> yields them; \<open>fs_iterdir d\<close> lists the
  names of the children of \<open>d\<close> (\<open>None\<close>: \<open>d\<close> is not a directory); \<open>fs_read p\<close> is the content
  of \<open>p\<close> (\<open>None\<close>: opening or reading it fails); \<open>fs_stat p\<close> is \<^verbatim>\<open>st_size\<close> and
  \<^verbatim>\<open>st_mtime\<close> of \<open>p\<close>, the latter already in ISO format (\<open>None\<close>: \<^verbatim>\<open>stat\<close> fails).
\<close>

record filesystem =
  fs_exists :: "path \<Rightarrow> bool"
  fs_is_file :: "path \<Rightarrow> bool option"
  fs_is_dir :: "path \<Rightarrow> bool"
  fs_rglob :: "path \<Rightarrow> string list"
  fs_iterdir :: "path \<Rightarrow> string list option"
  fs_read :: "path \<Rightarrow> string option"
  fs_stat :: "path \<Rightarrow> (nat \<times> string) option"

subsection \<open>The analyzer and its data\<close>

text \<open>The dictionary returned by \<^verbatim>\<open>get_file_info\<close>, one field per key.\<close>

record file_info =
  fi_path :: string
  fi_name :: string
  fi_size :: nat
  fi_hash :: string
  fi_extension :: string
  fi_modified :: string

type_synonym tree = "(string \<times> file_info) list"

text \<open>\<^verbatim>\<open>{"source": ..., "path": ...}\<close> and \<^verbatim>\<open>{"hash": ..., "locations": [...]}\<close>.\<close>

record location =
  loc_source :: string
  loc_path :: string

record duplicate_group =
  dg_hash :: string
  dg_locations :: "location list"

text \<open>\<^verbatim>\<open>{"version": ..., "path": ..., "hash_match": ...}\<close>.\<close>

record lineage_entry =
  le_version :: string
  le_path :: string
  le_hash_match :: bool

record analyzer =
  production_dir :: path
  archive_dir :: path
  output_dir :: path
  production_files :: tree
  archive_files :: "(string \<times> tree) list"
  duplicates :: "duplicate_group list"
  lineage :: "(string \<times> lineage_entry list) list"
  missing :: "string list"

text \<open>\<^verbatim>\<open>__init__\<close> (the creation of the output directory is not modelled).\<close>

definition init_analyzer :: "path \<Rightarrow> path \<Rightarrow> path \<Rightarrow> analyzer" where
  "init_analyzer pd ad od =
     \<lparr>production_dir = pd, archive_dir = ad, output_dir = od, production_files = [],
      archive_files = [], duplicates = [], lineage = [], missing = []\<rparr>"

subsection \<open>Scanning\<close>

definition compute_file_hash :: "(string \<Rightarrow> string) \<Rightarrow> filesystem \<Rightarrow> path \<Rightarrow> string" where
  "compute_file_hash sha256 fs filepath =
     (case fs_read fs filepath of None \<Rightarrow> [] | Some bytes \<Rightarrow> sha256 bytes)"

definition get_file_info ::
  "(string \<Rightarrow> string) \<Rightarrow> filesystem \<Rightarrow> path \<Rightarrow> path \<Rightarrow> error + file_info" where
  "get_file_info sha256 fs filepath base_dir =
     (case relative_to filepath base_dir of
        Inl e \<Rightarrow> Inl e
      | Inr relative \<Rightarrow>
          (case fs_stat fs filepath of
             None \<Rightarrow> Inl OSError
           | Some (st_size, st_mtime) \<Rightarrow>
               Inr \<lparr>fi_path = relative, fi_name = py_name filepath, fi_size = st_size,
                    fi_hash = compute_file_hash sha256 fs filepath,
                    fi_extension = py_suffix (py_name filepath),
                    fi_modified = st_mtime\<rparr>))"

definition skip_patterns :: "string list" where
  "skip_patterns = [''.git'', ''__pycache__'', ''.pyc'', ''node_modules'', ''target/debug'',
     ''target/release'', ''.DS_Store'']"

definition should_skip :: "path \<Rightarrow> bool" where
  "should_skip filepath = list_ex (\<lambda>pattern. str_contains pattern filepath) skip_patterns"

text \<open>
  The loop of \<^verbatim>\<open>scan_directory\<close> over the paths that \<^verbatim>\<open>rglob\<close> yields. The condition
  \<^verbatim>\<open>filepath.is_file() and not self._should_skip(filepath)\<close> calls \<^verbatim>\<open>is_file\<close> first, so an
  entry on which \<^verbatim>\<open>is_file\<close> raises ends the scan whether or not its path is excluded.
\<close>

fun scan_loop ::
  "(string \<Rightarrow> string) \<Rightarrow> filesystem \<Rightarrow> path \<Rightarrow> path \<Rightarrow> string list \<Rightarrow> tree \<Rightarrow> error + tree" where
  "scan_loop sha256 fs directory base_dir [] files = Inr files"
| "scan_loop sha256 fs directory base_dir (rel # rest) files =
     (let filepath = joinpath directory rel
      in case fs_is_file fs filepath of
           None \<Rightarrow> Inl OSError
         | Some is_file \<Rightarrow>
             if is_file \<and> \<not> should_skip filepath
             then (case get_file_info sha256 fs filepath base_dir of
                     Inl e \<Rightarrow> Inl e
                   | Inr info \<Rightarrow>
                       scan_loop sha256 fs directory base_dir rest
                         (dict_set files (fi_path info) info))
             else scan_loop sha256 fs directory base_dir rest files)"

definition scan_directory ::
  "(string \<Rightarrow> string) \<Rightarrow> filesystem \<Rightarrow> path \<Rightarrow> path \<Rightarrow> error + tree" where
  "scan_directory sha256 fs directory base_dir =
     (if \<not> fs_exists fs directory then Inr []
      else scan_loop sha256 fs directory base_dir (fs_rglob fs directory) [])"

text \<open>
  The loop of \<^verbatim>\<open>analyze\<close> over \<^verbatim>\<open>sorted(self.archive_dir.iterdir())\<close>; the children of one
  directory sort by their names.
\<close>

fun scan_archives ::
  "(string \<Rightarrow> string) \<Rightarrow> filesystem \<Rightarrow> path \<Rightarrow> string list \<Rightarrow> (string \<times> tree) list
     \<Rightarrow> error + (string \<times> tree) list" where
  "scan_archives sha256 fs adir [] acc = Inr acc"
| "scan_archives sha256 fs adir (child # rest) acc =
     (let version_dir = joinpath adir child
      in if fs_is_dir fs version_dir
         then (let version = py_name version_dir
               in case scan_directory sha256 fs version_dir version_dir of
                    Inl e \<Rightarrow> Inl e
                  | Inr files \<Rightarrow> scan_archives sha256 fs adir rest (dict_set acc version files))
         else scan_archives sha256 fs adir rest acc)"

subsection \<open>Duplicates\<close>

definition add_location ::
  "string \<Rightarrow> string \<times> file_info \<Rightarrow> (string \<times> location list) list
     \<Rightarrow> (string \<times> location list) list" where
  "add_location source = (\<lambda>(path, info) hash_to_files.
     if fi_hash info \<noteq> []
     then dict_append hash_to_files (fi_hash info) \<lparr>loc_source = source, loc_path = path\<rparr>
     else hash_to_files)"

definition hash_to_files_of :: "tree \<Rightarrow> (string \<times> tree) list \<Rightarrow> (string \<times> location list) list" where
  "hash_to_files_of pfiles afiles =
     fold (\<lambda>(version, files) h. fold (add_location version) files h) afiles
       (fold (add_location ''production'') pfiles [])"

definition find_duplicates :: "analyzer \<Rightarrow> analyzer" where
  "find_duplicates st =
     st\<lparr>duplicates := duplicates st @
          map (\<lambda>(file_hash, locations). \<lparr>dg_hash = take 16 file_hash, dg_locations = locations\<rparr>)
            (filter (\<lambda>(file_hash, locations). length locations > 1)
               (hash_to_files_of (production_files st) (archive_files st)))\<rparr>"

text \<open>
  The files of all trees with the label of their tree, in the order in which
  \<^verbatim>\<open>_find_duplicates\<close> visits them: the production tree first, then the archive versions.
\<close>

definition corpus :: "tree \<Rightarrow> (string \<times> tree) list \<Rightarrow> (string \<times> string \<times> file_info) list" where
  "corpus pfiles afiles =
     map (\<lambda>(path, info). (''production'', path, info)) pfiles @
     concat (map (\<lambda>(version, files). map (\<lambda>(path, info). (version, path, info)) files) afiles)"

subsection \<open>Lineage\<close>

text \<open>The two inner loops of \<^verbatim>\<open>_trace_lineage\<close>, appending to the local list \<^verbatim>\<open>lineage\<close>.\<close>

definition match_version ::
  "file_info \<Rightarrow> string \<Rightarrow> tree \<Rightarrow> lineage_entry list \<Rightarrow> lineage_entry list" where
  "match_version prod_info version files acc =
     fold (\<lambda>(arch_path, arch_info) l.
             if fi_name arch_info = fi_name prod_info
             then l @ [\<lparr>le_version = version, le_path = arch_path,
                        le_hash_match = (fi_hash prod_info = fi_hash arch_info)\<rparr>]
             else l) files acc"

definition lineage_of :: "(string \<times> tree) list \<Rightarrow> file_info \<Rightarrow> lineage_entry list" where
  "lineage_of afiles prod_info =
     fold (\<lambda>version l. match_version prod_info version (dict_get afiles version) l)
       (sort (map fst afiles)) []"

definition trace_lineage :: "analyzer \<Rightarrow> analyzer" where
  "trace_lineage st =
     st\<lparr>lineage :=
          fold (\<lambda>(prod_path, prod_info) lin.
                  let l = lineage_of (archive_files st) prod_info
                  in if l \<noteq> [] then dict_set lin prod_path l else lin)
            (production_files st) (lineage st)\<rparr>"

subsection \<open>Missing components\<close>

definition expected_dirs :: "string list" where
  "expected_dirs = [''core/src'', ''services'', ''tests'', ''docs'', ''deploy'', ''security'',
     ''dashboards'', ''alerts'', ''slo'']"

definition expected_files :: "string list" where
  "expected_files = [''Cargo.toml'', ''README.md'', ''CHANGELOG.md'', ''.todo'']"

definition find_missing :: "filesystem \<Rightarrow> analyzer \<Rightarrow> analyzer" where
  "find_missing fs st =
     st\<lparr>missing := missing st @
          map (\<lambda>dir_name. ''directory: '' @ dir_name)
            (filter (\<lambda>dir_name. \<not> fs_exists fs (joinpath (production_dir st) dir_name))
               expected_dirs) @
          map (\<lambda>file_name. ''file: '' @ file_name)
            (filter (\<lambda>file_name. \<not> fs_exists fs (joinpath (production_dir st) file_name))
               expected_files)\<rparr>"

subsection \<open>The report\<close>

record summary =
  sum_production_files :: nat
  sum_archive_versions :: nat
  sum_archive_files :: nat
  sum_duplicates_found :: nat
  sum_files_with_lineage :: nat
  sum_missing_components :: nat

record report =
  rep_timestamp :: string
  rep_summary :: summary
  rep_duplicates :: "duplicate_group list"
  rep_lineage_sample :: "(string \<times> lineage_entry list) list"
  rep_missing :: "string list"
  rep_critical_missing :: "string list"

definition is_critical :: "string \<Rightarrow> bool" where
  "is_critical m = (str_contains ''core'' m \<or> str_contains ''security'' m)"

text \<open>\<open>now\<close> is \<^verbatim>\<open>datetime.now().isoformat()\<close>, read when the report is built.\<close>

definition generate_report :: "string \<Rightarrow> analyzer \<Rightarrow> report" where
  "generate_report now st =
     \<lparr>rep_timestamp = now,
      rep_summary =
        \<lparr>sum_production_files = length (production_files st),
         sum_archive_versions = length (archive_files st),
         sum_archive_files = sum_list (map (\<lambda>(version, files). length files) (archive_files st)),
         sum_duplicates_found = length (duplicates st),
         sum_files_with_lineage = length (lineage st),
         sum_missing_components = length (missing st)\<rparr>,
      rep_duplicates = take 50 (duplicates st),
      rep_lineage_sample = take 20 (lineage st),
      rep_missing = missing st,
      rep_critical_missing = filter is_critical (missing st)\<rparr>"

subsection \<open>The run\<close>

definition scan_all_archives ::
  "(string \<Rightarrow> string) \<Rightarrow> filesystem \<Rightarrow> analyzer \<Rightarrow> error + (string \<times> tree) list" where
  "scan_all_archives sha256 fs st =
     (if fs_exists fs (archive_dir st)
      then (case fs_iterdir fs (archive_dir st) of
              None \<Rightarrow> Inl NotADirectoryError
            | Some children \<Rightarrow>
                scan_archives sha256 fs (archive_dir st) (sort children) (archive_files st))
      else Inr (archive_files st))"

definition analyze ::
  "(string \<Rightarrow> string) \<Rightarrow> filesystem \<Rightarrow> string \<Rightarrow> analyzer \<Rightarrow> error + report" where
  "analyze sha256 fs now st =
     (case scan_directory sha256 fs (production_dir st) (production_dir st) of
        Inl e \<Rightarrow> Inl e
      | Inr pf \<Rightarrow>
          (case scan_all_archives sha256 fs (st\<lparr>production_files := pf\<rparr>) of
             Inl e \<Rightarrow> Inl e
           | Inr af \<Rightarrow>
               Inr (generate_report now
                      (find_missing fs
                         (trace_lineage
                            (find_duplicates
                               (st\<lparr>production_files := pf, archive_files := af\<rparr>)))))))"

text \<open>
  \<^verbatim>\<open>main\<close>, as the exit code of the process: the argument of \<^verbatim>\<open>sys.exit\<close>, or 1 when an
  exception escapes.
\<close>

definition main :: "(string \<Rightarrow> string) \<Rightarrow> filesystem \<Rightarrow> string \<Rightarrow> path \<Rightarrow> path \<Rightarrow> path \<Rightarrow> int" where
  "main sha256 fs now pd ad od =
     (case analyze sha256 fs now (init_analyzer pd ad od) of
        Inl e \<Rightarrow> 1
      | Inr rpt \<Rightarrow> (if rep_critical_missing rpt \<noteq> [] then 1 else 0))"

subsection \<open>The wording of the specification\<close>

text \<open>
  The lowercase form of a string, which the specification asks of the extension: the ASCII
  capitals are mapped to their small letters.
\<close>

definition spec_lowercase :: "string \<Rightarrow> string" where
  "spec_lowercase s =
     map (\<lambda>c. case map_of (zip ''ABCDEFGHIJKLMNOPQRSTUVWXYZ'' ''abcdefghijklmnopqrstuvwxyz'') c of
                 None \<Rightarrow> c | Some l \<Rightarrow> l) s"

subsection \<open>Sample inputs\<close>

text \<open>
  A file system given by a listing: its directories, and its files with their content
  (\<open>None\<close> for a file that cannot be read). \<^verbatim>\<open>rglob\<close> yields the paths in listing order.
\<close>

definition listing_fs :: "path list \<Rightarrow> (path \<times> string option) list \<Rightarrow> filesystem" where
  "listing_fs dirs files =
     \<lparr>fs_exists = (\<lambda>p. p \<in> set dirs \<or> p \<in> set (map fst files)),
      fs_is_file = (\<lambda>p. Some (p \<in> set (map fst files))),
      fs_is_dir = (\<lambda>p. p \<in> set dirs),
      fs_rglob = (\<lambda>d. map (drop (length d + 1))
                         (filter (prefix (d @ ''/'')) (dirs @ map fst files))),
      fs_iterdir = (\<lambda>d. if d \<in> set dirs
                          then Some (map (drop (length d + 1))
                                 (filter (\<lambda>p. prefix (d @ ''/'') p
                                            \<and> CHR ''/'' \<notin> set (drop (length d + 1) p))
                                    (dirs @ map fst files)))
                          else None),
      fs_read = (\<lambda>p. case map_of files p of Some (Some bytes) \<Rightarrow> Some bytes | _ \<Rightarrow> None),
      fs_stat = (\<lambda>p. case map_of files p of
                        Some None \<Rightarrow> Some (1, ''2024-01-01T00:00:00'')
                      | Some (Some bytes) \<Rightarrow> Some (length bytes, ''2024-01-01T00:00:00'')
                      | None \<Rightarrow> if p \<in> set dirs then Some (0, ''2024-01-01T00:00:00'')
                                else None)\<rparr>"

text \<open>SHA-256 on the contents that the sample files have (\<^verbatim>\<open>X\<close>, \<^verbatim>\<open>Y\<close> and the empty content).\<close>

definition sha256_sample :: "string \<Rightarrow> string" where
  "sha256_sample bytes =
     (if bytes = ''X''
      then ''4b68ab3847feda7d6c62c1fbcbeebfa35eab7351ed5e78f4ddadea5df64b8015''
      else if bytes = ''Y''
      then ''18f5384d58bcb1bba0bcd9e6a6781d1a6ac2cc280c330ecbab6cb7931b721552''
      else ''e3b0c44298fc1c149afbf4c8996fb92427ae41e4649b934ca495991b7852b855'')"

text \<open>The scenario of the specification: one file, kept in \<^verbatim>\<open>v1\<close>, changed in \<^verbatim>\<open>v2\<close>.\<close>

definition fs_scenario :: filesystem where
  "fs_scenario = listing_fs [''prod'', ''arch'', ''arch/v2'', ''arch/v1'']
     [(''prod/a.txt'', Some ''X''), (''arch/v1/a.txt'', Some ''X''),
      (''arch/v2/a.txt'', Some ''Y'')]"

text \<open>A production tree with the two critical directories, and no archive.\<close>

definition fs_complete :: filesystem where
  "fs_complete = listing_fs [''prod'', ''prod/core'', ''prod/core/src'', ''prod/security'']
     [(''prod/core/src/lib.rs'', Some ''X''), (''prod/security/policy.md'', Some ''X'')]"

text \<open>Two files of the same name, neither of which can be read.\<close>

definition fs_unreadable :: filesystem where
  "fs_unreadable = listing_fs [''prod'', ''arch'', ''arch/v1'']
     [(''prod/a.txt'', None), (''arch/v1/a.txt'', None)]"

text \<open>One archive version holding two files with the name of a production file.\<close>

definition fs_same_name :: filesystem where
  "fs_same_name = listing_fs [''prod'', ''arch'', ''arch/v1'', ''arch/v1/x'', ''arch/v1/y'']
     [(''prod/a.txt'', Some ''X''), (''arch/v1/x/a.txt'', Some ''X''),
      (''arch/v1/y/a.txt'', Some ''Y'')]"

text \<open>A file whose suffix is spelled in upper case.\<close>

definition fs_upper :: filesystem where
  "fs_upper = listing_fs [''prod''] [(''prod/README.MD'', Some ''X'')]"


text \<open>A file record as a scan makes it, from its relative path, its name and its digest.\<close>

definition sample_info :: "string \<Rightarrow> string \<Rightarrow> string \<Rightarrow> file_info" where
  "sample_info p nm h =
     \<lparr>fi_path = p, fi_name = nm, fi_size = 1, fi_hash = h, fi_extension = py_suffix nm,
      fi_modified = ''2024-01-01T00:00:00''\<rparr>"

text \<open>
  The analyzer after the scans of \<open>fs_same_name\<close>, and one whose production tree has a
  file (\<^verbatim>\<open>new.txt\<close>) that no archive version knows.
\<close>

definition st_same_name :: analyzer where
  "st_same_name = (init_analyzer ''prod'' ''arch'' ''out'')
     \<lparr>production_files :=
        [(''a.txt'', sample_info ''a.txt'' ''a.txt'' (sha256_sample ''X''))],
      archive_files :=
        [(''v1'', [(''x/a.txt'', sample_info ''x/a.txt'' ''a.txt'' (sha256_sample ''X'')),
                  (''y/a.txt'', sample_info ''y/a.txt'' ''a.txt'' (sha256_sample ''Y''))])]\<rparr>"

definition st_new_file :: analyzer where
  "st_new_file = (init_analyzer ''prod'' ''arch'' ''out'')
     \<lparr>production_files :=
        [(''a.txt'', sample_info ''a.txt'' ''a.txt'' (sha256_sample ''X'')),
         (''new.txt'', sample_info ''new.txt'' ''new.txt'' (sha256_sample ''Y''))],
      archive_files :=
        [(''v1'', [(''a.txt'', sample_info ''a.txt'' ''a.txt'' (sha256_sample ''Y''))])]\<rparr>"

text \<open>
  The analyzer after the scans of a production tree and one archive version that both hold
  \<^verbatim>\<open>a.txt\<close> with the same content and a file \<^verbatim>\<open>locked.bin\<close> that cannot be read.
\<close>

definition st_locked :: analyzer where
  "st_locked = (init_analyzer ''prod'' ''arch'' ''out'')
     \<lparr>production_files :=
        [(''a.txt'', sample_info ''a.txt'' ''a.txt'' (sha256_sample ''X'')),
         (''locked.bin'', sample_info ''locked.bin'' ''locked.bin'' [])],
      archive_files :=
        [(''v1'', [(''a.txt'', sample_info ''a.txt'' ''a.txt'' (sha256_sample ''X'')),
                  (''locked.bin'', sample_info ''locked.bin'' ''locked.bin'' [])])]\<rparr>"


text \<open>
  The analyzer after the scans of one production file and an archive version that holds a
  file of its name, with another content, in each of 21 directories; and the lineage map
  of the run on them.
\<close>

definition many_dirs :: "string list" where
  "many_dirs = [''d01'', ''d02'', ''d03'', ''d04'', ''d05'', ''d06'', ''d07'', ''d08'', ''d09'',
     ''d10'', ''d11'', ''d12'', ''d13'', ''d14'', ''d15'', ''d16'', ''d17'', ''d18'', ''d19'',
     ''d20'', ''d21'']"

definition st_many :: analyzer where
  "st_many = (init_analyzer ''prod'' ''arch'' ''out'')
     \<lparr>production_files :=
        [(''a.txt'', sample_info ''a.txt'' ''a.txt'' (sha256_sample ''X''))],
      archive_files :=
        [(''v1'', map (\<lambda>d. (d @ ''/a.txt'',
                              sample_info (d @ ''/a.txt'') ''a.txt'' (sha256_sample ''Y'')))
                   many_dirs)]\<rparr>"

definition lineage_many :: "(string \<times> lineage_entry list) list" where
  "lineage_many =
     [(''a.txt'',
       map (\<lambda>d. \<lparr>le_version = ''v1'', le_path = d @ ''/a.txt'', le_hash_match = False\<rparr>)
         many_dirs)]"

section \<open>Properties\<close>

subsection \<open>Auxiliary facts\<close>

lemmas run_defs = main_def analyze_def init_analyzer_def scan_directory_def listing_fs_def
  joinpath_def should_skip_def skip_patterns_def get_file_info_def relative_to_def py_name_def
  py_suffix_def compute_file_hash_def sha256_sample_def scan_all_archives_def
  find_duplicates_def hash_to_files_of_def add_location_def trace_lineage_def lineage_of_def
  match_version_def dict_get_def find_missing_def expected_dirs_def expected_files_def
  generate_report_def is_critical_def

lemma str_contains_iff: "str_contains pat s \<longleftrightarrow> (\<exists>u v. s = u @ pat @ v)"
proof (induction s)
  case Nil
  then show ?case by auto
next
  case (Cons c s)
  show ?case
  proof
    assume "str_contains pat (c # s)"
    then consider "prefix pat (c # s)" | "str_contains pat s" by auto
    then show "\<exists>u v. c # s = u @ pat @ v"
    proof cases
      case 1
      then obtain v where "c # s = pat @ v" by (auto simp: prefix_def)
      then have "c # s = [] @ pat @ v" by simp
      then show ?thesis by blast
    next
      case 2
      with Cons.IH obtain u v where "s = u @ pat @ v" by blast
      then have "c # s = (c # u) @ pat @ v" by simp
      then show ?thesis by blast
    qed
  next
    assume "\<exists>u v. c # s = u @ pat @ v"
    then obtain u v where uv: "c # s = u @ pat @ v" by blast
    show "str_contains pat (c # s)"
    proof (cases u)
      case Nil
      with uv have "prefix pat (c # s)" by (simp add: prefix_def)
      then show ?thesis by simp
    next
      case (Cons a u')
      with uv have "s = u' @ pat @ v" by simp
      with Cons.IH have "str_contains pat s" by blast
      then show ?thesis by simp
    qed
  qed
qed

lemma is_critical_iff:
  "is_critical m \<longleftrightarrow> (\<exists>u v. m = u @ ''core'' @ v) \<or> (\<exists>u v. m = u @ ''security'' @ v)"
  unfolding is_critical_def str_contains_iff ..

lemma filter_map_filter:
  "filter Q (map f (filter P xs)) = map f (filter (\<lambda>x. P x \<and> Q (f x)) xs)"
  by (induction xs) auto

lemma critical_dirs:
  "filter (\<lambda>x. P x \<and> is_critical (''directory: '' @ x)) expected_dirs =
     filter P [''core/src'', ''security'']"
  by (simp add: expected_dirs_def is_critical_def)

lemma critical_files:
  "filter (\<lambda>x. P x \<and> is_critical (''file: '' @ x)) expected_files = []"
  by (simp add: expected_files_def is_critical_def)

lemma critical_of_missing:
  "filter is_critical (missing (find_missing fs (st\<lparr>missing := []\<rparr>))) =
     map (\<lambda>dir_name. ''directory: '' @ dir_name)
       (filter (\<lambda>dir_name. \<not> fs_exists fs (joinpath (production_dir st) dir_name))
          [''core/src'', ''security''])"
proof -
  have "missing (find_missing fs (st\<lparr>missing := []\<rparr>)) =
          map (\<lambda>dir_name. ''directory: '' @ dir_name)
            (filter (\<lambda>dir_name. \<not> fs_exists fs (joinpath (production_dir st) dir_name))
               expected_dirs) @
          map (\<lambda>file_name. ''file: '' @ file_name)
            (filter (\<lambda>file_name. \<not> fs_exists fs (joinpath (production_dir st) file_name))
               expected_files)"
    unfolding find_missing_def by simp
  then show ?thesis
    by (simp only: filter_append filter_map_filter critical_dirs critical_files
        list.map append_Nil2)
qed

lemma find_missing_only_dirs:
  "missing (find_missing fs st) =
     missing st @ missing (find_missing fs (st\<lparr>missing := []\<rparr>))"
  "production_dir (find_missing fs st) = production_dir st"
  "production_dir (trace_lineage st) = production_dir st"
  "production_dir (find_duplicates st) = production_dir st"
  "missing (trace_lineage st) = missing st"
  "missing (find_duplicates st) = missing st"
  by (simp_all add: find_missing_def trace_lineage_def find_duplicates_def)

lemma analyze_report:
  assumes "analyze sha256 fs now st = Inr rpt"
  shows "\<exists>pf af. scan_directory sha256 fs (production_dir st) (production_dir st) = Inr pf
           \<and> scan_all_archives sha256 fs (st\<lparr>production_files := pf\<rparr>) = Inr af
           \<and> rpt = generate_report now (find_missing fs (trace_lineage (find_duplicates
                     (st\<lparr>production_files := pf, archive_files := af\<rparr>))))"
  using assms by (auto simp: analyze_def split: sum.splits)

lemma analyze_critical:
  assumes "analyze sha256 fs now (init_analyzer pd ad od) = Inr rpt"
  shows "rep_critical_missing rpt = filter is_critical (rep_missing rpt)"
    and "rep_critical_missing rpt =
           map (\<lambda>dir_name. ''directory: '' @ dir_name)
             (filter (\<lambda>dir_name. \<not> fs_exists fs (joinpath pd dir_name))
                [''core/src'', ''security''])"
proof -
  from analyze_report[OF assms] obtain pf af where
    rpt: "rpt = generate_report now (find_missing fs (trace_lineage (find_duplicates
            (init_analyzer pd ad od\<lparr>production_files := pf, archive_files := af\<rparr>))))"
    by blast
  show "rep_critical_missing rpt = filter is_critical (rep_missing rpt)"
    by (simp add: rpt generate_report_def)
  let ?st = "trace_lineage (find_duplicates
            (init_analyzer pd ad od\<lparr>production_files := pf, archive_files := af\<rparr>))"
  have m: "missing ?st = []" and p: "production_dir ?st = pd"
    by (simp_all add: find_missing_only_dirs init_analyzer_def)
  have "?st\<lparr>missing := []\<rparr> = ?st" using m by simp
  with critical_of_missing[of fs ?st] p
  show "rep_critical_missing rpt =
           map (\<lambda>dir_name. ''directory: '' @ dir_name)
             (filter (\<lambda>dir_name. \<not> fs_exists fs (joinpath pd dir_name))
                [''core/src'', ''security''])"
    by (simp add: rpt generate_report_def)
qed

subsection \<open>The exit code\<close>

text \<open>
  C1. When the analysis returns its report, the exit code is 0 if and only if the report has
  no critical missing item, and it is 1 otherwise; the critical items are exactly the missing
  items whose descriptor contains \<^verbatim>\<open>core\<close> or \<^verbatim>\<open>security\<close>. Of the thirteen expected
  paths only \<^verbatim>\<open>core/src\<close> and \<^verbatim>\<open>security\<close> give such a descriptor, so the exit code is 0
  exactly when these two exist under the production root: neither the duplicates nor any
  other missing item has a part in it.
\<close>

theorem exit_code_zero_iff_no_critical_missing:
  assumes "analyze sha256 fs now (init_analyzer pd ad od) = Inr rpt"
  shows "(main sha256 fs now pd ad od = 0 \<longleftrightarrow> rep_critical_missing rpt = [])
       \<and> (main sha256 fs now pd ad od = 1 \<longleftrightarrow> rep_critical_missing rpt \<noteq> [])
       \<and> rep_critical_missing rpt =
           filter (\<lambda>m. (\<exists>u v. m = u @ ''core'' @ v) \<or> (\<exists>u v. m = u @ ''security'' @ v))
             (rep_missing rpt)
       \<and> (main sha256 fs now pd ad od = 0 \<longleftrightarrow>
            fs_exists fs (joinpath pd ''core/src'') \<and> fs_exists fs (joinpath pd ''security''))"
proof -
  have exit: "main sha256 fs now pd ad od = (if rep_critical_missing rpt \<noteq> [] then 1 else 0)"
    using assms by (simp add: main_def)
  have crit: "rep_critical_missing rpt =
           filter (\<lambda>m. (\<exists>u v. m = u @ ''core'' @ v) \<or> (\<exists>u v. m = u @ ''security'' @ v))
             (rep_missing rpt)"
    using analyze_critical(1)[OF assms] is_critical_iff by (simp cong: filter_cong)
  have dirs: "rep_critical_missing rpt = [] \<longleftrightarrow>
            fs_exists fs (joinpath pd ''core/src'') \<and> fs_exists fs (joinpath pd ''security'')"
    by (simp add: analyze_critical(2)[OF assms])
  show ?thesis using exit crit dirs by simp
qed

theorem exit_code_zero_iff_no_critical_missing_witness:
  "analyze sha256_sample fs_complete ''2024-05-01T10:00:00''
       (init_analyzer ''prod'' ''arch'' ''out'') =
     Inr \<lparr>rep_timestamp = ''2024-05-01T10:00:00'',
          rep_summary =
            \<lparr>sum_production_files = 2, sum_archive_versions = 0, sum_archive_files = 0,
             sum_duplicates_found = 1, sum_files_with_lineage = 0,
             sum_missing_components = 11\<rparr>,
          rep_duplicates =
            [\<lparr>dg_hash = ''4b68ab3847feda7d'',
              dg_locations =
                [\<lparr>loc_source = ''production'', loc_path = ''core/src/lib.rs''\<rparr>,
                 \<lparr>loc_source = ''production'', loc_path = ''security/policy.md''\<rparr>]\<rparr>],
          rep_lineage_sample = [],
          rep_missing =
            [''directory: services'', ''directory: tests'', ''directory: docs'',
             ''directory: deploy'', ''directory: dashboards'', ''directory: alerts'',
             ''directory: slo'', ''file: Cargo.toml'', ''file: README.md'',
             ''file: CHANGELOG.md'', ''file: .todo''],
          rep_critical_missing = []\<rparr>
   \<and> main sha256_sample fs_complete ''2024-05-01T10:00:00'' ''prod'' ''arch'' ''out'' = 0"
proof -
  let ?rpt = "\<lparr>rep_timestamp = ''2024-05-01T10:00:00'',
          rep_summary =
            \<lparr>sum_production_files = 2, sum_archive_versions = 0, sum_archive_files = 0,
             sum_duplicates_found = 1, sum_files_with_lineage = 0,
             sum_missing_components = 11\<rparr>,
          rep_duplicates =
            [\<lparr>dg_hash = ''4b68ab3847feda7d'',
              dg_locations =
                [\<lparr>loc_source = ''production'', loc_path = ''core/src/lib.rs''\<rparr>,
                 \<lparr>loc_source = ''production'', loc_path = ''security/policy.md''\<rparr>]\<rparr>],
          rep_lineage_sample = [],
          rep_missing =
            [''directory: services'', ''directory: tests'', ''directory: docs'',
             ''directory: deploy'', ''directory: dashboards'', ''directory: alerts'',
             ''directory: slo'', ''file: Cargo.toml'', ''file: README.md'',
             ''file: CHANGELOG.md'', ''file: .todo''],
          rep_critical_missing = []\<rparr>"
  have h: "analyze sha256_sample fs_complete ''2024-05-01T10:00:00''
             (init_analyzer ''prod'' ''arch'' ''out'') = Inr ?rpt"
    by (simp add: run_defs fs_complete_def)
  from exit_code_zero_iff_no_critical_missing[OF h] h show ?thesis by simp
qed

subsection \<open>Absent roots\<close>

text \<open>
  C7. Scanning a root that does not exist returns the empty tree, whatever else the file
  system holds, and raises nothing. The run goes on with the other trees: when the archive
  root is absent, the report is built from the production tree alone, and when the
  production root is absent, it is built from the archive trees with an empty production
  tree.
\<close>

theorem scan_absent_root_empty:
  "(\<not> fs_exists fs directory \<longrightarrow> scan_directory sha256 fs directory base_dir = Inr [])
 \<and> (\<not> fs_exists fs (archive_dir st)
      \<and> scan_directory sha256 fs (production_dir st) (production_dir st) = Inr pf \<longrightarrow>
    analyze sha256 fs now st =
      Inr (generate_report now (find_missing fs (trace_lineage (find_duplicates
             (st\<lparr>production_files := pf\<rparr>))))))
 \<and> (\<not> fs_exists fs (production_dir st)
      \<and> scan_all_archives sha256 fs (st\<lparr>production_files := []\<rparr>) = Inr af \<longrightarrow>
    analyze sha256 fs now st =
      Inr (generate_report now (find_missing fs (trace_lineage (find_duplicates
             (st\<lparr>production_files := [], archive_files := af\<rparr>))))))"
  by (simp add: scan_directory_def analyze_def scan_all_archives_def)

theorem scan_absent_root_empty_witness:
  "\<not> fs_exists fs_complete ''arch''
 \<and> scan_directory sha256_sample fs_complete ''arch'' ''arch'' = Inr []
 \<and> (\<exists>pf. scan_directory sha256_sample fs_complete ''prod'' ''prod'' = Inr pf
      \<and> length pf = 2
      \<and> analyze sha256_sample fs_complete ''2024-05-01T10:00:00''
            (init_analyzer ''prod'' ''arch'' ''out'') =
          Inr (generate_report ''2024-05-01T10:00:00'' (find_missing fs_complete
                (trace_lineage (find_duplicates
                   (init_analyzer ''prod'' ''arch'' ''out''\<lparr>production_files := pf\<rparr>))))))
 \<and> \<not> fs_exists fs_complete ''nowhere''
 \<and> (\<exists>rpt. analyze sha256_sample fs_complete ''2024-05-01T10:00:00''
            (init_analyzer ''nowhere'' ''arch'' ''out'') = Inr rpt
      \<and> sum_production_files (rep_summary rpt) = 0)"
proof -
  have a: "\<not> fs_exists fs_complete ''arch''" and n: "\<not> fs_exists fs_complete ''nowhere''"
    by (simp_all add: fs_complete_def listing_fs_def)
  obtain pf where pf: "scan_directory sha256_sample fs_complete ''prod'' ''prod'' = Inr pf"
    and len: "length pf = 2"
    by (simp add: run_defs fs_complete_def)
  have af: "scan_all_archives sha256_sample fs_complete
              (init_analyzer ''nowhere'' ''arch'' ''out''\<lparr>production_files := []\<rparr>) = Inr []"
    using a by (simp add: scan_all_archives_def init_analyzer_def)
  note inst = scan_absent_root_empty[where fs = fs_complete and ?sha256.0 = sha256_sample]
  have 1: "scan_directory sha256_sample fs_complete ''arch'' ''arch'' = Inr []"
    using inst[of "''arch''" "''arch''"] a by simp
  have 2: "analyze sha256_sample fs_complete ''2024-05-01T10:00:00''
            (init_analyzer ''prod'' ''arch'' ''out'') =
          Inr (generate_report ''2024-05-01T10:00:00'' (find_missing fs_complete
                (trace_lineage (find_duplicates
                   (init_analyzer ''prod'' ''arch'' ''out''\<lparr>production_files := pf\<rparr>)))))"
    using inst[of _ _ "init_analyzer ''prod'' ''arch'' ''out''" pf] a pf
    by (simp add: init_analyzer_def)
  have 3: "analyze sha256_sample fs_complete ''2024-05-01T10:00:00''
            (init_analyzer ''nowhere'' ''arch'' ''out'') =
          Inr (generate_report ''2024-05-01T10:00:00'' (find_missing fs_complete
                (trace_lineage (find_duplicates
                   (init_analyzer ''nowhere'' ''arch'' ''out''
                      \<lparr>production_files := [], archive_files := []\<rparr>)))))"
    using inst[of _ _ "init_analyzer ''nowhere'' ''arch'' ''out''" _ _ "[]"] n af
    by (simp add: init_analyzer_def)
  have 4: "sum_production_files (rep_summary (generate_report ''2024-05-01T10:00:00''
              (find_missing fs_complete (trace_lineage (find_duplicates
                   (init_analyzer ''nowhere'' ''arch'' ''out''
                      \<lparr>production_files := [], archive_files := []\<rparr>)))))) = 0"
    by (simp add: generate_report_def find_missing_def trace_lineage_def find_duplicates_def)
  show ?thesis using a n 1 2 3 4 pf len by simp
qed

subsection \<open>The timestamp of the report\<close>

text \<open>
  C5, as stated, fails: the report carries the time at which it was built, so two runs on
  the same trees at different times give different reports.
\<close>

theorem report_differs_with_clock:
  "analyze sha256_sample fs_scenario ''2024-05-01T10:00:00''
       (init_analyzer ''prod'' ''arch'' ''out'')
   \<noteq> analyze sha256_sample fs_scenario ''2024-05-01T10:00:01''
       (init_analyzer ''prod'' ''arch'' ''out'')"
  by (simp add: run_defs fs_scenario_def)

text \<open>
  C5, amended. Apart from its timestamp the report is a function of the scanned trees: a
  second run on the same file system, at another time, returns the report of the first run
  with the timestamp replaced, and nothing else changed.
\<close>

theorem report_fixed_up_to_timestamp:
  assumes "analyze sha256 fs now1 st = Inr r1"
  shows "analyze sha256 fs now2 st = Inr (r1\<lparr>rep_timestamp := now2\<rparr>)"
  using assms by (auto simp: analyze_def generate_report_def split: sum.splits)

theorem report_fixed_up_to_timestamp_witness:
  "analyze sha256_sample fs_scenario ''2024-05-01T10:00:01''
       (init_analyzer ''prod'' ''arch'' ''out'') =
     Inr \<lparr>rep_timestamp = ''2024-05-01T10:00:01'',
          rep_summary =
            \<lparr>sum_production_files = 1, sum_archive_versions = 2, sum_archive_files = 2,
             sum_duplicates_found = 1, sum_files_with_lineage = 1,
             sum_missing_components = 13\<rparr>,
          rep_duplicates =
            [\<lparr>dg_hash = ''4b68ab3847feda7d'',
              dg_locations =
                [\<lparr>loc_source = ''production'', loc_path = ''a.txt''\<rparr>,
                 \<lparr>loc_source = ''v1'', loc_path = ''a.txt''\<rparr>]\<rparr>],
          rep_lineage_sample =
            [(''a.txt'',
              [\<lparr>le_version = ''v1'', le_path = ''a.txt'', le_hash_match = True\<rparr>,
               \<lparr>le_version = ''v2'', le_path = ''a.txt'', le_hash_match = False\<rparr>])],
          rep_missing =
            [''directory: core/src'', ''directory: services'', ''directory: tests'',
             ''directory: docs'', ''directory: deploy'', ''directory: security'',
             ''directory: dashboards'', ''directory: alerts'', ''directory: slo'',
             ''file: Cargo.toml'', ''file: README.md'', ''file: CHANGELOG.md'', ''file: .todo''],
          rep_critical_missing = [''directory: core/src'', ''directory: security'']\<rparr>"
proof -
  have h: "analyze sha256_sample fs_scenario ''2024-05-01T10:00:00''
       (init_analyzer ''prod'' ''arch'' ''out'') =
     Inr \<lparr>rep_timestamp = ''2024-05-01T10:00:00'',
          rep_summary =
            \<lparr>sum_production_files = 1, sum_archive_versions = 2, sum_archive_files = 2,
             sum_duplicates_found = 1, sum_files_with_lineage = 1,
             sum_missing_components = 13\<rparr>,
          rep_duplicates =
            [\<lparr>dg_hash = ''4b68ab3847feda7d'',
              dg_locations =
                [\<lparr>loc_source = ''production'', loc_path = ''a.txt''\<rparr>,
                 \<lparr>loc_source = ''v1'', loc_path = ''a.txt''\<rparr>]\<rparr>],
          rep_lineage_sample =
            [(''a.txt'',
              [\<lparr>le_version = ''v1'', le_path = ''a.txt'', le_hash_match = True\<rparr>,
               \<lparr>le_version = ''v2'', le_path = ''a.txt'', le_hash_match = False\<rparr>])],
          rep_missing =
            [''directory: core/src'', ''directory: services'', ''directory: tests'',
             ''directory: docs'', ''directory: deploy'', ''directory: security'',
             ''directory: dashboards'', ''directory: alerts'', ''directory: slo'',
             ''file: Cargo.toml'', ''file: README.md'', ''file: CHANGELOG.md'', ''file: .todo''],
          rep_critical_missing = [''directory: core/src'', ''directory: security'']\<rparr>"
    by (simp add: run_defs fs_scenario_def)
  from report_fixed_up_to_timestamp[OF h, of "''2024-05-01T10:00:01''"]
  show ?thesis by simp
qed

subsection \<open>The extension of a file\<close>

lemma takeWhile_last_part:
  assumes "\<not> P x" and "\<forall>y\<in>set xs. P y"
  shows "takeWhile P (xs @ x # l) = xs"
  using assms by (induction xs) auto

lemma py_suffix_split:
  assumes "nm = stem @ CHR ''.'' # ext" and "stem \<noteq> []" and "ext \<noteq> []"
    and "CHR ''.'' \<notin> set ext"
  shows "py_suffix nm = CHR ''.'' # ext"
proof -
  have "rev nm = rev ext @ CHR ''.'' # rev stem" using assms(1) by simp
  moreover have "\<forall>y\<in>set (rev ext). y \<noteq> CHR ''.''" using assms(4) by auto
  ultimately have "takeWhile (\<lambda>c. c \<noteq> CHR ''.'') (rev nm) = rev ext"
    using takeWhile_last_part[of "\<lambda>c. c \<noteq> CHR ''.''" "CHR ''.''" "rev ext" "rev stem"]
    by simp
  then show ?thesis using assms by (simp add: py_suffix_def)
qed

lemma py_suffix_nonempty:
  assumes "py_suffix nm \<noteq> []"
  shows "\<exists>stem ext. nm = stem @ CHR ''.'' # ext \<and> stem \<noteq> [] \<and> ext \<noteq> []
           \<and> CHR ''.'' \<notin> set ext \<and> py_suffix nm = CHR ''.'' # ext"
proof -
  let ?P = "\<lambda>c. c \<noteq> CHR ''.''"
  let ?tw = "takeWhile ?P (rev nm)"
  let ?dw = "dropWhile ?P (rev nm)"
  from assms have dot: "CHR ''.'' \<in> set nm" and ne: "?tw \<noteq> []"
    and len: "length ?tw + 1 < length nm" and suf: "py_suffix nm = CHR ''.'' # rev ?tw"
    by (auto simp: py_suffix_def Let_def split: if_splits)
  from dot have "?dw \<noteq> []" by (auto simp: dropWhile_eq_Nil_conv)
  then obtain rest where dw: "?dw = CHR ''.'' # rest"
    using hd_dropWhile[of ?P "rev nm"] by (cases ?dw) auto
  have "rev nm = ?tw @ ?dw" by simp
  then have "rev nm = ?tw @ CHR ''.'' # rest" using dw by simp
  then have "rev (rev nm) = rev (?tw @ CHR ''.'' # rest)" by (rule arg_cong)
  then have nm: "nm = rev rest @ CHR ''.'' # rev ?tw" by simp
  then have "length nm = length rest + 1 + length ?tw"
    by (metis add.commute add_Suc_right length_Cons length_append length_rev plus_1_eq_Suc add.assoc)
  with len have "rest \<noteq> []" by auto
  moreover have "CHR ''.'' \<notin> set (rev ?tw)" by (auto dest: set_takeWhileD)
  ultimately show ?thesis using nm ne suf by (intro exI[of _ "rev rest"] exI[of _ "rev ?tw"]) simp
qed

text \<open>
  C9, as stated, fails: the extension is the suffix as the file name spells it; for
  \<^verbatim>\<open>README.MD\<close> it is \<^verbatim>\<open>.MD\<close>, not the lowercase \<^verbatim>\<open>.md\<close>.
\<close>

theorem extension_not_lowercased:
  "get_file_info sha256_sample fs_upper ''prod/README.MD'' ''prod'' =
     Inr \<lparr>fi_path = ''README.MD'', fi_name = ''README.MD'', fi_size = 1,
          fi_hash = ''4b68ab3847feda7d6c62c1fbcbeebfa35eab7351ed5e78f4ddadea5df64b8015'',
          fi_extension = ''.MD'', fi_modified = ''2024-01-01T00:00:00''\<rparr>
   \<and> spec_lowercase (py_suffix ''README.MD'') = ''.md''
   \<and> ''.MD'' \<noteq> spec_lowercase (py_suffix ''README.MD'')"
  by (simp add: run_defs fs_upper_def spec_lowercase_def)

text \<open>
  C9, amended. The extension of a scanned file is the suffix of its name with the case of
  the name kept: when the name is \<open>stem @ ''.'' @ ext\<close> with \<open>stem\<close> and \<open>ext\<close> not empty and
  no dot in \<open>ext\<close>, the extension is \<open>''.'' @ ext\<close>, leading dot included; for any other name
  it is the empty string.
\<close>

theorem extension_is_suffix_of_name:
  assumes "get_file_info sha256 fs filepath base_dir = Inr info"
  shows "fi_name info = py_name filepath
       \<and> fi_extension info = py_suffix (fi_name info)
       \<and> ((\<exists>stem ext. fi_name info = stem @ CHR ''.'' # ext \<and> stem \<noteq> [] \<and> ext \<noteq> []
              \<and> CHR ''.'' \<notin> set ext \<and> fi_extension info = CHR ''.'' # ext)
          \<or> (fi_extension info = []
              \<and> \<not> (\<exists>stem ext. fi_name info = stem @ CHR ''.'' # ext \<and> stem \<noteq> [] \<and> ext \<noteq> []
                     \<and> CHR ''.'' \<notin> set ext)))"
proof -
  from assms have nm: "fi_name info = py_name filepath"
    and ex: "fi_extension info = py_suffix (fi_name info)"
    by (auto simp: get_file_info_def split: sum.splits option.splits)
  show ?thesis
  proof (cases "py_suffix (fi_name info) = []")
    case True
    then have "\<not> (\<exists>stem ext. fi_name info = stem @ CHR ''.'' # ext \<and> stem \<noteq> [] \<and> ext \<noteq> []
                     \<and> CHR ''.'' \<notin> set ext)"
      using py_suffix_split[of "fi_name info"] by fastforce
    with True nm ex show ?thesis by simp
  next
    case False
    from py_suffix_nonempty[OF this] nm ex show ?thesis by auto
  qed
qed

theorem extension_is_suffix_of_name_witness:
  "fi_name \<lparr>fi_path = ''README.MD'', fi_name = ''README.MD'', fi_size = 1,
          fi_hash = ''4b68ab3847feda7d6c62c1fbcbeebfa35eab7351ed5e78f4ddadea5df64b8015'',
          fi_extension = ''.MD'', fi_modified = ''2024-01-01T00:00:00''\<rparr>
     = py_name ''prod/README.MD''
   \<and> ''.MD'' = py_suffix ''README.MD''"
proof -
  have h: "get_file_info sha256_sample fs_upper ''prod/README.MD'' ''prod'' =
     Inr \<lparr>fi_path = ''README.MD'', fi_name = ''README.MD'', fi_size = 1,
          fi_hash = ''4b68ab3847feda7d6c62c1fbcbeebfa35eab7351ed5e78f4ddadea5df64b8015'',
          fi_extension = ''.MD'', fi_modified = ''2024-01-01T00:00:00''\<rparr>"
    by (simp add: run_defs fs_upper_def)
  from extension_is_suffix_of_name[OF h] show ?thesis by simp
qed

subsection \<open>Unreadable files in the lineage\<close>

text \<open>
  C2. On a production file and an archive file of the same name, neither of which can be
  read, both digests are the empty string and \<^verbatim>\<open>_trace_lineage\<close> compares them with
  \<^verbatim>\<open>==\<close>: the entry says that the contents match. The duplicate detector, on the same two
  files, leaves both out.
\<close>

theorem unreadable_files_recorded_as_match:
  "scan_directory sha256_sample fs_unreadable ''prod'' ''prod'' =
     Inr [(''a.txt'', \<lparr>fi_path = ''a.txt'', fi_name = ''a.txt'', fi_size = 1, fi_hash = [],
            fi_extension = ''.txt'', fi_modified = ''2024-01-01T00:00:00''\<rparr>)]
   \<and> scan_directory sha256_sample fs_unreadable ''arch/v1'' ''arch/v1'' =
     Inr [(''a.txt'', \<lparr>fi_path = ''a.txt'', fi_name = ''a.txt'', fi_size = 1, fi_hash = [],
            fi_extension = ''.txt'', fi_modified = ''2024-01-01T00:00:00''\<rparr>)]
   \<and> analyze sha256_sample fs_unreadable ''2024-05-01T10:00:00''
       (init_analyzer ''prod'' ''arch'' ''out'') =
     Inr \<lparr>rep_timestamp = ''2024-05-01T10:00:00'',
          rep_summary =
            \<lparr>sum_production_files = 1, sum_archive_versions = 1, sum_archive_files = 1,
             sum_duplicates_found = 0, sum_files_with_lineage = 1,
             sum_missing_components = 13\<rparr>,
          rep_duplicates = [],
          rep_lineage_sample =
            [(''a.txt'', [\<lparr>le_version = ''v1'', le_path = ''a.txt'', le_hash_match = True\<rparr>])],
          rep_missing =
            [''directory: core/src'', ''directory: services'', ''directory: tests'',
             ''directory: docs'', ''directory: deploy'', ''directory: security'',
             ''directory: dashboards'', ''directory: alerts'', ''directory: slo'',
             ''file: Cargo.toml'', ''file: README.md'', ''file: CHANGELOG.md'', ''file: .todo''],
          rep_critical_missing = [''directory: core/src'', ''directory: security'']\<rparr>"
  by (simp add: run_defs fs_unreadable_def)

subsection \<open>The lineage map\<close>

lemma match_version_eq:
  "match_version prod_info version files acc =
     acc @ map (\<lambda>(arch_path, arch_info).
                  \<lparr>le_version = version, le_path = arch_path,
                   le_hash_match = (fi_hash prod_info = fi_hash arch_info)\<rparr>)
             (filter (\<lambda>(arch_path, arch_info). fi_name arch_info = fi_name prod_info) files)"
  unfolding match_version_def by (induction files arbitrary: acc) auto

lemma match_version_acc:
  "match_version prod_info version files acc = acc @ match_version prod_info version files []"
  by (simp add: match_version_eq)

lemma match_version_versions:
  "e \<in> set (match_version prod_info version files []) \<Longrightarrow> le_version e = version"
  by (auto simp: match_version_eq)

lemma fold_versions:
  "fold (\<lambda>version l. match_version prod_info version (f version) l) vs acc =
     acc @ concat (map (\<lambda>version. match_version prod_info version (f version) []) vs)"
proof (induction vs arbitrary: acc)
  case Nil
  then show ?case by simp
next
  case (Cons v vs)
  show ?case
    by (simp add: Cons.IH match_version_acc[of prod_info v "f v" acc])
qed

lemma lineage_of_eq:
  "lineage_of afiles prod_info =
     concat (map (\<lambda>version. match_version prod_info version (dict_get afiles version) [])
               (sort (map fst afiles)))"
  unfolding lineage_of_def by (simp add: fold_versions)

lemma filter_version_absent:
  assumes "v \<notin> set vs" and "\<And>u e. e \<in> set (g u) \<Longrightarrow> le_version e = u"
  shows "filter (\<lambda>e. le_version e = v) (concat (map g vs)) = []"
  using assms by (induction vs) (auto simp: filter_empty_conv)

lemma filter_version_concat:
  assumes "distinct vs" and "v \<in> set vs" and "\<And>u e. e \<in> set (g u) \<Longrightarrow> le_version e = u"
  shows "filter (\<lambda>e. le_version e = v) (concat (map g vs)) = g v"
  using assms
proof (induction vs)
  case Nil
  then show ?case by simp
next
  case (Cons u vs)
  show ?case
  proof (cases "u = v")
    case True
    then have "v \<notin> set vs" using Cons.prems(1) by simp
    then have "filter (\<lambda>e. le_version e = v) (concat (map g vs)) = []"
      using Cons.prems(3) by (rule filter_version_absent)
    moreover have "filter (\<lambda>e. le_version e = v) (g v) = g v"
      using Cons.prems(3) by (simp add: filter_id_conv)
    ultimately show ?thesis using True by simp
  next
    case False
    then have "filter (\<lambda>e. le_version e = v) (g u) = []"
      using Cons.prems(3) by (auto simp: filter_empty_conv)
    moreover have "filter (\<lambda>e. le_version e = v) (concat (map g vs)) = g v"
      using Cons False by auto
    ultimately show ?thesis by simp
  qed
qed

lemma dict_get_member:
  assumes "distinct (map fst d)" and "(k, v) \<in> set d"
  shows "dict_get d k = v"
  using assms by (simp add: dict_get_def)

lemma dict_get_cases:
  "dict_get d k = [] \<or> (k, dict_get d k) \<in> set d"
  by (auto simp: dict_get_def split: option.splits dest: map_of_SomeD)

lemma lineage_of_version:
  assumes "distinct (map fst afiles)" and "(version, files) \<in> set afiles"
  shows "filter (\<lambda>e. le_version e = version) (lineage_of afiles prod_info) =
           match_version prod_info version files []"
proof -
  have "version \<in> set (sort (map fst afiles))" using assms(2) by force
  moreover have "distinct (sort (map fst afiles))" using assms(1) by simp
  ultimately have "filter (\<lambda>e. le_version e = version) (lineage_of afiles prod_info) =
      match_version prod_info version (dict_get afiles version) []"
    unfolding lineage_of_eq
    by (intro filter_version_concat[where g = "\<lambda>v. match_version prod_info v (dict_get afiles v) []"])
       (auto dest: match_version_versions)
  then show ?thesis using dict_get_member[OF assms] by simp
qed

lemma lineage_of_empty_iff:
  "lineage_of afiles prod_info = [] \<longleftrightarrow>
     (\<forall>version \<in> fst ` set afiles. \<forall>(arch_path, arch_info) \<in> set (dict_get afiles version).
        fi_name arch_info \<noteq> fi_name prod_info)"
  by (auto simp: lineage_of_eq match_version_eq filter_empty_conv)

lemma lineage_of_no_match:
  assumes "\<forall>(version, files) \<in> set afiles. \<forall>(arch_path, arch_info) \<in> set files.
             fi_name arch_info \<noteq> fi_name prod_info"
  shows "lineage_of afiles prod_info = []"
  unfolding lineage_of_empty_iff
proof (intro ballI)
  fix version x
  assume "x \<in> set (dict_get afiles version)"
  then have "(version, dict_get afiles version) \<in> set afiles"
    using dict_get_cases[of afiles version] by auto
  with assms \<open>x \<in> set (dict_get afiles version)\<close>
  show "case x of (arch_path, arch_info) \<Rightarrow> fi_name arch_info \<noteq> fi_name prod_info"
    by fastforce
qed

lemma lineage_of_match:
  assumes "distinct (map fst afiles)" and "(version, files) \<in> set afiles"
    and "(arch_path, arch_info) \<in> set files" and "fi_name arch_info = fi_name prod_info"
  shows "lineage_of afiles prod_info \<noteq> []"
proof -
  have "dict_get afiles version = files" using assms(1,2) by (rule dict_get_member)
  moreover have "version \<in> fst ` set afiles" using assms(2) by force
  ultimately show ?thesis using assms(3,4) unfolding lineage_of_empty_iff by fastforce
qed

lemma dict_set_fresh: "k \<notin> fst ` set d \<Longrightarrow> dict_set d k v = d @ [(k, v)]"
  by (induction d) auto

lemma trace_fold:
  assumes "distinct (map fst pfiles)" and "fst ` set acc \<inter> fst ` set pfiles = {}"
  shows "fold (\<lambda>(prod_path, prod_info) lin.
                  let l = f prod_info in if l \<noteq> [] then dict_set lin prod_path l else lin)
           pfiles acc =
         acc @ map (\<lambda>(prod_path, prod_info). (prod_path, f prod_info))
                 (filter (\<lambda>(prod_path, prod_info). f prod_info \<noteq> []) pfiles)"
  using assms
proof (induction pfiles arbitrary: acc)
  case Nil
  then show ?case by simp
next
  case (Cons x pfiles)
  obtain p i where x: "x = (p, i)" by (cases x)
  have fresh: "p \<notin> fst ` set acc" using Cons.prems(2) x by auto
  have d: "distinct (map fst pfiles)" and pn: "p \<notin> fst ` set pfiles"
    using Cons.prems(1) x by auto
  show ?case
  proof (cases "f i = []")
    case True
    have "fst ` set acc \<inter> fst ` set pfiles = {}" using Cons.prems(2) by auto
    from Cons.IH[OF d this] True x show ?thesis by simp
  next
    case False
    have "fst ` set (acc @ [(p, f i)]) \<inter> fst ` set pfiles = {}"
      using Cons.prems(2) pn by auto
    from Cons.IH[OF d this] False x fresh show ?thesis by (simp add: dict_set_fresh)
  qed
qed

lemma trace_lineage_eq:
  assumes "distinct (map fst (production_files st))" and "lineage st = []"
  shows "lineage (trace_lineage st) =
           map (\<lambda>(prod_path, prod_info). (prod_path, lineage_of (archive_files st) prod_info))
             (filter (\<lambda>(prod_path, prod_info). lineage_of (archive_files st) prod_info \<noteq> [])
                (production_files st))"
  using trace_fold[OF assms(1), of "[]" "lineage_of (archive_files st)"] assms(2)
  by (simp add: trace_lineage_def)

lemma trace_lineage_lookup:
  assumes "distinct (map fst (production_files st))" and "lineage st = []"
    and "(prod_path, prod_info) \<in> set (production_files st)"
  shows "map_of (lineage (trace_lineage st)) prod_path =
           (if lineage_of (archive_files st) prod_info = [] then None
            else Some (lineage_of (archive_files st) prod_info))"
proof -
  let ?f = "lineage_of (archive_files st)"
  let ?l = "map (\<lambda>(prod_path, prod_info). (prod_path, ?f prod_info))
             (filter (\<lambda>(prod_path, prod_info). ?f prod_info \<noteq> []) (production_files st))"
  have uniq: "i = prod_info" if "(prod_path, i) \<in> set (production_files st)" for i
    using assms(1,3) that by (meson eq_key_imp_eq_value)
  have dl: "distinct (map fst ?l)"
    using assms(1) by (simp add: distinct_map_filter comp_def case_prod_beta)
  show ?thesis
  proof (cases "?f prod_info = []")
    case True
    have "prod_path \<notin> fst ` set ?l" using uniq True by auto
    then have "map_of ?l prod_path = None" by (simp add: map_of_eq_None_iff)
    then show ?thesis using True trace_lineage_eq[OF assms(1,2)] by simp
  next
    case False
    then have "(prod_path, ?f prod_info) \<in> set ?l" using assms(3) by force
    with dl have "map_of ?l prod_path = Some (?f prod_info)" by simp
    then show ?thesis using False trace_lineage_eq[OF assms(1,2)] by simp
  qed
qed

lemma trace_lineage_get:
  assumes "distinct (map fst (production_files st))" and "lineage st = []"
    and "(prod_path, prod_info) \<in> set (production_files st)"
  shows "dict_get (lineage (trace_lineage st)) prod_path =
           lineage_of (archive_files st) prod_info"
  using trace_lineage_lookup[OF assms] by (simp add: dict_get_def)

lemma trace_lineage_length:
  assumes "distinct (map fst (production_files st))" and "lineage st = []"
    and "distinct (map fst (archive_files st))"
  shows "length (lineage (trace_lineage st)) =
           length (filter (\<lambda>(prod_path, prod_info).
                     \<exists>(version, files) \<in> set (archive_files st).
                       \<exists>(arch_path, arch_info) \<in> set files.
                         fi_name arch_info = fi_name prod_info)
                    (production_files st))"
proof -
  have "lineage_of (archive_files st) i \<noteq> [] \<longleftrightarrow>
          (\<exists>(version, files) \<in> set (archive_files st).
             \<exists>(arch_path, arch_info) \<in> set files. fi_name arch_info = fi_name i)" for i
  proof
    assume "lineage_of (archive_files st) i \<noteq> []"
    then show "\<exists>(version, files) \<in> set (archive_files st).
             \<exists>(arch_path, arch_info) \<in> set files. fi_name arch_info = fi_name i"
      using lineage_of_no_match[of "archive_files st" i] by fastforce
  next
    assume "\<exists>(version, files) \<in> set (archive_files st).
             \<exists>(arch_path, arch_info) \<in> set files. fi_name arch_info = fi_name i"
    then show "lineage_of (archive_files st) i \<noteq> []"
      using lineage_of_match[OF assms(3)] by fastforce
  qed
  then have "filter (\<lambda>(prod_path, prod_info). lineage_of (archive_files st) prod_info \<noteq> [])
               (production_files st) =
             filter (\<lambda>(prod_path, prod_info).
                     \<exists>(version, files) \<in> set (archive_files st).
                       \<exists>(arch_path, arch_info) \<in> set files.
                         fi_name arch_info = fi_name prod_info)
                    (production_files st)"
    by (intro filter_cong) auto
  then show ?thesis using trace_lineage_eq[OF assms(1,2)] by simp
qed

text \<open>
  C3, as stated, fails: with two files named \<^verbatim>\<open>a.txt\<close> in version \<^verbatim>\<open>v1\<close>, the lineage of
  the production file \<^verbatim>\<open>a.txt\<close> holds two entries for \<^verbatim>\<open>v1\<close>, the first encountered as
  well as the last.
\<close>

theorem two_entries_for_one_version:
  "analyze sha256_sample fs_same_name ''2024-05-01T10:00:00''
       (init_analyzer ''prod'' ''arch'' ''out'') =
     Inr \<lparr>rep_timestamp = ''2024-05-01T10:00:00'',
          rep_summary =
            \<lparr>sum_production_files = 1, sum_archive_versions = 1, sum_archive_files = 2,
             sum_duplicates_found = 1, sum_files_with_lineage = 1,
             sum_missing_components = 13\<rparr>,
          rep_duplicates =
            [\<lparr>dg_hash = ''4b68ab3847feda7d'',
              dg_locations =
                [\<lparr>loc_source = ''production'', loc_path = ''a.txt''\<rparr>,
                 \<lparr>loc_source = ''v1'', loc_path = ''x/a.txt''\<rparr>]\<rparr>],
          rep_lineage_sample =
            [(''a.txt'',
              [\<lparr>le_version = ''v1'', le_path = ''x/a.txt'', le_hash_match = True\<rparr>,
               \<lparr>le_version = ''v1'', le_path = ''y/a.txt'', le_hash_match = False\<rparr>])],
          rep_missing =
            [''directory: core/src'', ''directory: services'', ''directory: tests'',
             ''directory: docs'', ''directory: deploy'', ''directory: security'',
             ''directory: dashboards'', ''directory: alerts'', ''directory: slo'',
             ''file: Cargo.toml'', ''file: README.md'', ''file: CHANGELOG.md'', ''file: .todo''],
          rep_critical_missing = [''directory: core/src'', ''directory: security'']\<rparr>"
  by (simp add: run_defs fs_same_name_def)

text \<open>
  C3, amended. For every production file and every archive version, the lineage of the
  production file holds one entry for each file of that version that bears the production
  file's name, in the order of that version's scan: with several such files in one version
  all of them are recorded, and none is chosen over the others.
\<close>

theorem lineage_entry_per_same_named_file:
  assumes "distinct (map fst (production_files st))"
    and "distinct (map fst (archive_files st))"
    and "lineage st = []"
    and "(prod_path, prod_info) \<in> set (production_files st)"
    and "(version, files) \<in> set (archive_files st)"
  shows "filter (\<lambda>e. le_version e = version)
           (dict_get (lineage (trace_lineage st)) prod_path) =
         map (\<lambda>(arch_path, arch_info).
                \<lparr>le_version = version, le_path = arch_path,
                 le_hash_match = (fi_hash prod_info = fi_hash arch_info)\<rparr>)
           (filter (\<lambda>(arch_path, arch_info). fi_name arch_info = fi_name prod_info) files)
       \<and> length (filter (\<lambda>e. le_version e = version)
           (dict_get (lineage (trace_lineage st)) prod_path)) =
         length (filter (\<lambda>(arch_path, arch_info). fi_name arch_info = fi_name prod_info) files)"
proof -
  have "filter (\<lambda>e. le_version e = version)
           (dict_get (lineage (trace_lineage st)) prod_path) =
        match_version prod_info version files []"
    using trace_lineage_get[OF assms(1,3,4)] lineage_of_version[OF assms(2,5)] by simp
  then show ?thesis by (simp add: match_version_eq)
qed

theorem lineage_entry_per_same_named_file_witness:
  "filter (\<lambda>e. le_version e = ''v1'')
     (dict_get (lineage (trace_lineage st_same_name)) ''a.txt'') =
   [\<lparr>le_version = ''v1'', le_path = ''x/a.txt'', le_hash_match = True\<rparr>,
    \<lparr>le_version = ''v1'', le_path = ''y/a.txt'', le_hash_match = False\<rparr>]"
proof -
  have "distinct (map fst (production_files st_same_name))"
    and "distinct (map fst (archive_files st_same_name))"
    and "lineage st_same_name = []"
    and "(''a.txt'', sample_info ''a.txt'' ''a.txt'' (sha256_sample ''X''))
           \<in> set (production_files st_same_name)"
    and "(''v1'', [(''x/a.txt'', sample_info ''x/a.txt'' ''a.txt'' (sha256_sample ''X'')),
                  (''y/a.txt'', sample_info ''y/a.txt'' ''a.txt'' (sha256_sample ''Y''))])
           \<in> set (archive_files st_same_name)"
    by (simp_all add: st_same_name_def init_analyzer_def)
  from lineage_entry_per_same_named_file[OF this]
  show ?thesis by (simp add: sample_info_def sha256_sample_def)
qed

text \<open>
  C6. A production file whose name no file of any archive version bears gets no item in
  the lineage map: its path is not a key of the map, and no key of the map is bound to an
  empty list. The count of files with lineage is the number of items of the map, that is
  the number of production files whose name occurs in some archive version, so such a file
  is not counted.
\<close>

theorem no_same_named_file_no_lineage_item:
  assumes "distinct (map fst (production_files st))"
    and "distinct (map fst (archive_files st))"
    and "lineage st = []"
    and "(prod_path, prod_info) \<in> set (production_files st)"
    and "\<forall>(version, files) \<in> set (archive_files st).
           \<forall>(arch_path, arch_info) \<in> set files. fi_name arch_info \<noteq> fi_name prod_info"
  shows "map_of (lineage (trace_lineage st)) prod_path = None
       \<and> prod_path \<notin> fst ` set (lineage (trace_lineage st))
       \<and> [] \<notin> snd ` set (lineage (trace_lineage st))
       \<and> sum_files_with_lineage
            (rep_summary (generate_report now (find_missing fs (trace_lineage st)))) =
          length (filter (\<lambda>(p, i).
                     \<exists>(version, files) \<in> set (archive_files st).
                       \<exists>(arch_path, arch_info) \<in> set files. fi_name arch_info = fi_name i)
                    (production_files st))"
proof -
  have none: "map_of (lineage (trace_lineage st)) prod_path = None"
    using trace_lineage_lookup[OF assms(1,3,4)] lineage_of_no_match[OF assms(5)] by simp
  then have key: "prod_path \<notin> fst ` set (lineage (trace_lineage st))"
    by (simp add: map_of_eq_None_iff)
  have nonempty: "[] \<notin> snd ` set (lineage (trace_lineage st))"
    unfolding trace_lineage_eq[OF assms(1,3)] by auto
  have "lineage (find_missing fs (trace_lineage st)) = lineage (trace_lineage st)"
    by (simp add: find_missing_def)
  then have "sum_files_with_lineage
            (rep_summary (generate_report now (find_missing fs (trace_lineage st)))) =
          length (lineage (trace_lineage st))"
    by (simp add: generate_report_def)
  with trace_lineage_length[OF assms(1,3,2)] none key nonempty show ?thesis by simp
qed

theorem no_same_named_file_no_lineage_item_witness:
  "map_of (lineage (trace_lineage st_new_file)) ''new.txt'' = None
 \<and> lineage (trace_lineage st_new_file) =
     [(''a.txt'', [\<lparr>le_version = ''v1'', le_path = ''a.txt'', le_hash_match = False\<rparr>])]
 \<and> sum_files_with_lineage
      (rep_summary (generate_report ''2024-05-01T10:00:00''
         (find_missing fs_scenario (trace_lineage st_new_file)))) = 1"
proof -
  have "distinct (map fst (production_files st_new_file))"
    and "distinct (map fst (archive_files st_new_file))"
    and "lineage st_new_file = []"
    and "(''new.txt'', sample_info ''new.txt'' ''new.txt'' (sha256_sample ''Y''))
           \<in> set (production_files st_new_file)"
    and "\<forall>(version, files) \<in> set (archive_files st_new_file).
           \<forall>(arch_path, arch_info) \<in> set files.
             fi_name arch_info \<noteq> fi_name (sample_info ''new.txt'' ''new.txt'' (sha256_sample ''Y''))"
    by (simp_all add: st_new_file_def init_analyzer_def sample_info_def)
  from no_same_named_file_no_lineage_item[OF this,
      of "''2024-05-01T10:00:00''" fs_scenario]
  have "map_of (lineage (trace_lineage st_new_file)) ''new.txt'' = None
      \<and> sum_files_with_lineage
          (rep_summary (generate_report ''2024-05-01T10:00:00''
             (find_missing fs_scenario (trace_lineage st_new_file)))) = 1"
    by (simp add: st_new_file_def init_analyzer_def sample_info_def)
  moreover have "lineage (trace_lineage st_new_file) =
     [(''a.txt'', [\<lparr>le_version = ''v1'', le_path = ''a.txt'', le_hash_match = False\<rparr>])]"
    by (simp add: st_new_file_def init_analyzer_def sample_info_def sha256_sample_def
        trace_lineage_def lineage_of_def match_version_def dict_get_def)
  ultimately show ?thesis by simp
qed

subsection \<open>Duplicate groups\<close>

lemma map_of_dict_append:
  "map_of (dict_append d k x) =
     (map_of d)(k \<mapsto> (case map_of d k of None \<Rightarrow> [x] | Some ys \<Rightarrow> ys @ [x]))"
  by (induction d) (auto simp: fun_eq_iff)

lemma keys_dict_append: "fst ` set (dict_append d k x) = insert k (fst ` set d)"
proof (induction d)
  case Nil
  show ?case by simp
next
  case (Cons p d)
  obtain k' xs where p: "p = (k', xs)" by (cases p)
  show ?case using Cons.IH by (cases "k' = k") (simp_all add: p insert_commute)
qed

lemma distinct_dict_append:
  "distinct (map fst d) \<Longrightarrow> distinct (map fst (dict_append d k x))"
proof (induction d)
  case Nil
  show ?case by simp
next
  case (Cons p d)
  obtain k' xs where p: "p = (k', xs)" by (cases p)
  show ?case using Cons by (cases "k' = k") (simp_all add: p keys_dict_append)
qed

lemma group_fold:
  fixes key :: "'e \<Rightarrow> string" and val :: "'e \<Rightarrow> 'v"
  defines "step \<equiv> \<lambda>e d. if key e \<noteq> [] then dict_append d (key e) (val e) else d"
  shows "distinct (map fst (fold step es []))
       \<and> (\<forall>k. map_of (fold step es []) k =
               (if k \<noteq> [] \<and> k \<in> key ` set es
                then Some (map val (filter (\<lambda>e. key e = k) es)) else None))"
proof (induction es rule: rev_induct)
  case Nil
  then show ?case by simp
next
  case (snoc e es)
  let ?d = "fold step es []"
  have d: "distinct (map fst ?d)"
    and m: "\<And>k. map_of ?d k =
               (if k \<noteq> [] \<and> k \<in> key ` set es
                then Some (map val (filter (\<lambda>e. key e = k) es)) else None)"
    using snoc.IH by auto
  have absent: "filter (\<lambda>e'. key e' = k) es = []" if "k \<notin> key ` set es" for k
    using that by (auto simp: filter_empty_conv)
  show ?case
  proof (cases "key e = []")
    case True
    then have "fold step (es @ [e]) [] = ?d" by (simp add: step_def)
    moreover have "map_of ?d k =
               (if k \<noteq> [] \<and> k \<in> key ` set (es @ [e])
                then Some (map val (filter (\<lambda>e. key e = k) (es @ [e]))) else None)" for k
      using m[of k] True by auto
    ultimately show ?thesis using d by simp
  next
    case False
    then have f: "fold step (es @ [e]) [] = dict_append ?d (key e) (val e)"
      by (simp add: step_def)
    have "map_of (dict_append ?d (key e) (val e)) k =
               (if k \<noteq> [] \<and> k \<in> key ` set (es @ [e])
                then Some (map val (filter (\<lambda>e. key e = k) (es @ [e]))) else None)" for k
    proof (cases "k = key e")
      case True
      then show ?thesis
        using False m[of "key e"] absent[of "key e"] by (auto simp: map_of_dict_append)
    next
      case False
      then show ?thesis using m[of k] by (auto simp: map_of_dict_append)
    qed
    then show ?thesis using d f by (simp add: distinct_dict_append)
  qed
qed

lemma hash_to_files_fold:
  "hash_to_files_of pfiles afiles =
     fold (\<lambda>(source, path, info) h.
             if fi_hash info \<noteq> []
             then dict_append h (fi_hash info) \<lparr>loc_source = source, loc_path = path\<rparr>
             else h)
       (corpus pfiles afiles) []"
proof -
  let ?step = "\<lambda>(source, path, info) h.
             if fi_hash info \<noteq> []
             then dict_append h (fi_hash info) \<lparr>loc_source = source, loc_path = path\<rparr>
             else h"
  have tree_fold: "fold (add_location source) files h =
      fold ?step (map (\<lambda>(path, info). (source, path, info)) files) h" for source files h
    by (induction files arbitrary: h) (auto simp: add_location_def)
  have versions: "fold (\<lambda>(version, files) h. fold (add_location version) files h) afiles h =
      fold ?step (concat (map (\<lambda>(version, files).
                    map (\<lambda>(path, info). (version, path, info)) files) afiles)) h" for h
    by (induction afiles arbitrary: h) (auto simp: tree_fold)
  show ?thesis
    unfolding hash_to_files_of_def corpus_def by (simp add: tree_fold versions)
qed

lemma hash_to_files_groups:
  assumes "(h, locs) \<in> set (hash_to_files_of pfiles afiles)"
  shows "h \<noteq> []"
    and "locs = map (\<lambda>(source, path, info). \<lparr>loc_source = source, loc_path = path\<rparr>)
                  (filter (\<lambda>(source, path, info). fi_hash info = h) (corpus pfiles afiles))"
proof -
  let ?key = "\<lambda>(source, path, info). fi_hash (info :: file_info)"
  let ?val = "\<lambda>(source :: string, path :: string, info :: file_info).
                \<lparr>loc_source = source, loc_path = path\<rparr>"
  let ?step = "\<lambda>e d. if ?key e \<noteq> [] then dict_append d (?key e) (?val e) else d"
  have eq: "hash_to_files_of pfiles afiles = fold ?step (corpus pfiles afiles) []"
    unfolding hash_to_files_fold by (intro arg_cong2[where f = "\<lambda>f. fold f (corpus pfiles afiles)"]) (auto simp: fun_eq_iff)
  from group_fold[of ?key ?val "corpus pfiles afiles"]
  have d: "distinct (map fst (hash_to_files_of pfiles afiles))"
    and m: "\<And>k. map_of (hash_to_files_of pfiles afiles) k =
               (if k \<noteq> [] \<and> k \<in> ?key ` set (corpus pfiles afiles)
                then Some (map ?val (filter (\<lambda>e. ?key e = k) (corpus pfiles afiles)))
                else None)"
    unfolding eq by auto
  from d assms have s: "map_of (hash_to_files_of pfiles afiles) h = Some locs" by simp
  with m[of h] have ne: "h \<noteq> []"
    and l: "locs = map ?val (filter (\<lambda>e. ?key e = h) (corpus pfiles afiles))"
    by (simp_all split: if_splits)
  show "h \<noteq> []" by (rule ne)
  have "filter (\<lambda>e. ?key e = h) (corpus pfiles afiles) =
        filter (\<lambda>(source, path, info). fi_hash info = h) (corpus pfiles afiles)"
    by (intro filter_cong) auto
  with l
  show "locs = map (\<lambda>(source, path, info). \<lparr>loc_source = source, loc_path = path\<rparr>)
                  (filter (\<lambda>(source, path, info). fi_hash info = h) (corpus pfiles afiles))"
    by simp
qed

text \<open>
  C4. A file whose content cannot be read gets the empty digest. Every duplicate group
  stands for one digest that is not empty, and its locations are the files of the corpus
  with that digest, all of them and no others, at least two: so a file with the empty
  digest is in no group, and every group consists of files with a non-empty digest. The
  groups of the report are among these groups.
\<close>

theorem unreadable_files_in_no_duplicate_group:
  "(fs_read fs filepath = None \<longrightarrow> compute_file_hash sha256 fs filepath = [])
 \<and> (fs_read fs filepath = None \<and> get_file_info sha256 fs filepath base_dir = Inr info \<longrightarrow>
      fi_hash info = [])
 \<and> (duplicates st = [] \<longrightarrow>
      (\<forall>g \<in> set (duplicates (find_duplicates st)).
         2 \<le> length (dg_locations g)
       \<and> (\<exists>h. h \<noteq> [] \<and> dg_hash g = take 16 h
            \<and> dg_locations g =
                map (\<lambda>(source, path, info). \<lparr>loc_source = source, loc_path = path\<rparr>)
                  (filter (\<lambda>(source, path, info). fi_hash info = h)
                     (corpus (production_files st) (archive_files st))))))
 \<and> set (rep_duplicates (generate_report now
           (find_missing fs (trace_lineage (find_duplicates st)))))
      \<subseteq> set (duplicates (find_duplicates st))"
proof (intro conjI impI ballI)
  show "compute_file_hash sha256 fs filepath = []" if "fs_read fs filepath = None"
    using that by (simp add: compute_file_hash_def)
  show "fi_hash info = []"
    if "fs_read fs filepath = None \<and> get_file_info sha256 fs filepath base_dir = Inr info"
    using that
    by (auto simp: get_file_info_def compute_file_hash_def split: sum.splits option.splits)
  have "duplicates (find_missing fs (trace_lineage (find_duplicates st))) =
          duplicates (find_duplicates st)"
    by (simp add: find_missing_def trace_lineage_def)
  then show "set (rep_duplicates (generate_report now
           (find_missing fs (trace_lineage (find_duplicates st)))))
      \<subseteq> set (duplicates (find_duplicates st))"
    by (simp add: generate_report_def set_take_subset)
next
  fix g
  assume fresh: "duplicates st = []" and g: "g \<in> set (duplicates (find_duplicates st))"
  from g fresh obtain h locs where
    mem: "(h, locs) \<in> set (hash_to_files_of (production_files st) (archive_files st))"
    and len: "length locs > 1"
    and geq: "g = \<lparr>dg_hash = take 16 h, dg_locations = locs\<rparr>"
    by (auto simp: find_duplicates_def)
  from len geq show "2 \<le> length (dg_locations g)" by simp
  from hash_to_files_groups[OF mem] geq
  show "\<exists>h. h \<noteq> [] \<and> dg_hash g = take 16 h
            \<and> dg_locations g =
                map (\<lambda>(source, path, info). \<lparr>loc_source = source, loc_path = path\<rparr>)
                  (filter (\<lambda>(source, path, info). fi_hash info = h)
                     (corpus (production_files st) (archive_files st)))"
    by (intro exI[of _ h]) simp
qed

theorem unreadable_files_in_no_duplicate_group_witness:
  "fs_read fs_unreadable ''prod/a.txt'' = None
 \<and> compute_file_hash sha256_sample fs_unreadable ''prod/a.txt'' = []
 \<and> get_file_info sha256_sample fs_unreadable ''prod/a.txt'' ''prod'' =
     Inr \<lparr>fi_path = ''a.txt'', fi_name = ''a.txt'', fi_size = 1, fi_hash = [],
          fi_extension = ''.txt'', fi_modified = ''2024-01-01T00:00:00''\<rparr>
 \<and> duplicates st_locked = []
 \<and> duplicates (find_duplicates st_locked) =
     [\<lparr>dg_hash = ''4b68ab3847feda7d'',
       dg_locations = [\<lparr>loc_source = ''production'', loc_path = ''a.txt''\<rparr>,
                       \<lparr>loc_source = ''v1'', loc_path = ''a.txt''\<rparr>]\<rparr>]
 \<and> 2 \<le> length (dg_locations \<lparr>dg_hash = ''4b68ab3847feda7d'',
       dg_locations = [\<lparr>loc_source = ''production'', loc_path = ''a.txt''\<rparr>,
                       \<lparr>loc_source = ''v1'', loc_path = ''a.txt''\<rparr>]\<rparr>)"
proof -
  let ?info = "\<lparr>fi_path = ''a.txt'', fi_name = ''a.txt'', fi_size = 1, fi_hash = [],
          fi_extension = ''.txt'', fi_modified = ''2024-01-01T00:00:00''\<rparr>"
  let ?g = "\<lparr>dg_hash = ''4b68ab3847feda7d'',
       dg_locations = [\<lparr>loc_source = ''production'', loc_path = ''a.txt''\<rparr>,
                       \<lparr>loc_source = ''v1'', loc_path = ''a.txt''\<rparr>]\<rparr>"
  have r: "fs_read fs_unreadable ''prod/a.txt'' = None"
    by (simp add: fs_unreadable_def listing_fs_def)
  have i: "get_file_info sha256_sample fs_unreadable ''prod/a.txt'' ''prod'' = Inr ?info"
    by (simp add: run_defs fs_unreadable_def)
  have f: "duplicates st_locked = []"
    by (simp add: st_locked_def init_analyzer_def)
  have d: "duplicates (find_duplicates st_locked) = [?g]"
    by (simp add: st_locked_def init_analyzer_def sample_info_def sha256_sample_def
        find_duplicates_def hash_to_files_of_def add_location_def)
  from unreadable_files_in_no_duplicate_group[where fs = fs_unreadable
      and filepath = "''prod/a.txt''" and ?sha256.0 = sha256_sample and base_dir = "''prod''"
      and info = ?info and st = st_locked] r i f d
  show ?thesis by simp
qed

subsection \<open>Samples and counts of the report\<close>

lemma lineage_of_st_many:
  "lineage (trace_lineage (find_duplicates st_many)) = lineage_many"
proof -
  let ?pi = "sample_info ''a.txt'' ''a.txt'' (sha256_sample ''X'')"
  let ?files = "map (\<lambda>d. (d @ ''/a.txt'',
                   sample_info (d @ ''/a.txt'') ''a.txt'' (sha256_sample ''Y''))) many_dirs"
  let ?entries = "map (\<lambda>d. \<lparr>le_version = ''v1'', le_path = d @ ''/a.txt'',
                     le_hash_match = False\<rparr>) many_dirs"
  have pf: "production_files (find_duplicates st_many) = [(''a.txt'', ?pi)]"
    and af: "archive_files (find_duplicates st_many) = [(''v1'', ?files)]"
    and lin: "lineage (find_duplicates st_many) = []"
    by (simp_all add: find_duplicates_def st_many_def init_analyzer_def)
  have digests: "sha256_sample ''X'' \<noteq> sha256_sample ''Y''"
    by (simp add: sha256_sample_def)
  have "match_version ?pi ''v1'' ?files [] = ?entries"
    unfolding match_version_eq using digests
    by (simp add: filter_map o_def sample_info_def)
  then have lo: "lineage_of [(''v1'', ?files)] ?pi = ?entries"
    by (simp add: lineage_of_eq dict_get_def)
  have ne: "?entries \<noteq> []" by (simp add: many_dirs_def)
  have "distinct (map fst (production_files (find_duplicates st_many)))"
    by (simp add: pf)
  from trace_lineage_eq[OF this lin] lo ne
  show ?thesis by (simp add: pf af lineage_many_def)
qed

text \<open>
  C8, as stated, fails in the bound on lineage entries: the sample is cut by production
  files, not by entries. With one production file whose name 21 files of an archive
  version bear, the sample has one item, and that item holds 21 lineage entries.
\<close>

theorem sample_holds_more_than_twenty_entries:
  "rep_lineage_sample (generate_report ''2024-05-01T10:00:00''
     (find_missing fs_scenario (trace_lineage (find_duplicates st_many)))) = lineage_many
 \<and> length lineage_many = 1
 \<and> length (concat (map snd lineage_many)) = 21
 \<and> \<not> length (concat (map snd lineage_many)) \<le> 20"
proof -
  have "lineage (find_missing fs_scenario (trace_lineage (find_duplicates st_many))) =
          lineage_many"
    by (simp add: find_missing_def lineage_of_st_many)
  then have "rep_lineage_sample (generate_report ''2024-05-01T10:00:00''
     (find_missing fs_scenario (trace_lineage (find_duplicates st_many)))) =
        take 20 lineage_many"
    by (simp add: generate_report_def)
  moreover have "take 20 lineage_many = lineage_many" by (simp add: lineage_many_def)
  moreover have "length (concat (map snd lineage_many)) = 21"
    by (simp add: lineage_many_def many_dirs_def)
  ultimately show ?thesis by (simp add: lineage_many_def)
qed

text \<open>
  C8, amended. The report embeds the first 50 duplicate groups and the first 20 items of
  the lineage map, one item per production file, each with the whole list of that file's
  lineage entries: the samples never hold more than 50 groups and 20 production files. The
  six counts of the summary are the full totals, whether or not a sample was cut.
\<close>

theorem report_samples_capped_counts_exact:
  "rep_duplicates (generate_report now st) = take 50 (duplicates st)
 \<and> rep_lineage_sample (generate_report now st) = take 20 (lineage st)
 \<and> length (rep_duplicates (generate_report now st)) = min 50 (length (duplicates st))
 \<and> length (rep_lineage_sample (generate_report now st)) = min 20 (length (lineage st))
 \<and> length (rep_duplicates (generate_report now st)) \<le> 50
 \<and> length (rep_lineage_sample (generate_report now st)) \<le> 20
 \<and> sum_duplicates_found (rep_summary (generate_report now st)) = length (duplicates st)
 \<and> sum_files_with_lineage (rep_summary (generate_report now st)) = length (lineage st)
 \<and> sum_missing_components (rep_summary (generate_report now st)) = length (missing st)
 \<and> sum_production_files (rep_summary (generate_report now st)) = length (production_files st)
 \<and> sum_archive_versions (rep_summary (generate_report now st)) = length (archive_files st)
 \<and> sum_archive_files (rep_summary (generate_report now st)) =
      sum_list (map (\<lambda>(version, files). length files) (archive_files st))"
  by (simp add: generate_report_def min_def)

subsection \<open>Exclusion by path\<close>


lemma keys_dict_set: "fst ` set (dict_set d k v) = insert k (fst ` set d)"
proof (induction d)
  case Nil
  show ?case by simp
next
  case (Cons p d)
  obtain k' v' where p: "p = (k', v')" by (cases p)
  show ?case using Cons.IH by (cases "k' = k") (simp_all add: p insert_commute)
qed


text \<open>One turn of the loop that returns: either the entry is passed over, or it is recorded.\<close>

lemma scan_loop_step:
  assumes "scan_loop sha256 fs d b (rel # rels) acc = Inr t"
  shows "(\<not> (fs_is_file fs (joinpath d rel) = Some True \<and> \<not> should_skip (joinpath d rel))
            \<and> scan_loop sha256 fs d b rels acc = Inr t)
       \<or> (fs_is_file fs (joinpath d rel) = Some True \<and> \<not> should_skip (joinpath d rel)
            \<and> (\<exists>info. get_file_info sha256 fs (joinpath d rel) b = Inr info
                  \<and> scan_loop sha256 fs d b rels (dict_set acc (fi_path info) info) = Inr t))"
  using assms by (auto simp: Let_def split: option.splits sum.splits if_splits)









subsection \<open>The dictionaries of a run\<close>

text \<open>
  The trees that \<^verbatim>\<open>analyze\<close> hands to the duplicate detector and the lineage tracer are
  dictionaries: no key occurs twice. The statements above that ask for distinct keys
  therefore cover every state that a run reaches.
\<close>

lemma distinct_dict_set: "distinct (map fst d) \<Longrightarrow> distinct (map fst (dict_set d k v))"
proof (induction d)
  case Nil
  show ?case by simp
next
  case (Cons p d)
  obtain k' v' where p: "p = (k', v')" by (cases p)
  show ?case using Cons by (cases "k' = k") (simp_all add: p keys_dict_set)
qed

lemma scan_loop_distinct:
  "scan_loop sha256 fs d b rels acc = Inr t \<Longrightarrow> distinct (map fst acc) \<Longrightarrow>
     distinct (map fst t)"
proof (induction rels arbitrary: acc)
  case Nil
  then show ?case by simp
next
  case (Cons rel rels)
  from scan_loop_step[OF Cons.prems(1)] show ?case
  proof (elim disjE conjE exE)
    assume "scan_loop sha256 fs d b rels acc = Inr t"
    then show ?thesis using Cons.prems(2) by (rule Cons.IH)
  next
    fix i
    assume rest: "scan_loop sha256 fs d b rels (dict_set acc (fi_path i) i) = Inr t"
    from Cons.IH[OF rest] Cons.prems(2) show ?thesis by (simp add: distinct_dict_set)
  qed
qed

lemma scan_directory_distinct:
  "scan_directory sha256 fs d b = Inr t \<Longrightarrow> distinct (map fst t)"
  by (auto simp: scan_directory_def split: if_splits dest: scan_loop_distinct)

lemma scan_archives_distinct:
  "scan_archives sha256 fs adir children acc = Inr af \<Longrightarrow> distinct (map fst acc) \<Longrightarrow>
     distinct (map fst af)"
proof (induction children arbitrary: acc)
  case Nil
  then show ?case by simp
next
  case (Cons child children)
  show ?case
  proof (cases "fs_is_dir fs (joinpath adir child)")
    case False
    then have "scan_archives sha256 fs adir children acc = Inr af" using Cons.prems by simp
    then show ?thesis using Cons.prems(2) by (rule Cons.IH)
  next
    case True
    then obtain files where
      rest: "scan_archives sha256 fs adir children
               (dict_set acc (py_name (joinpath adir child)) files) = Inr af"
      using Cons.prems by (auto simp: Let_def split: sum.splits)
    from Cons.IH[OF rest] Cons.prems(2) show ?thesis by (simp add: distinct_dict_set)
  qed
qed

lemma scan_all_archives_distinct:
  "scan_all_archives sha256 fs st = Inr af \<Longrightarrow> distinct (map fst (archive_files st)) \<Longrightarrow>
     distinct (map fst af)"
  by (auto simp: scan_all_archives_def split: if_splits option.splits
      dest: scan_archives_distinct)

end
